theory Spec2Isabelle
  imports Main "HOL-Library.Word" "HOL-Library.Monad_Syntax"
begin

unbundle bit_operations_syntax

section \<open>AnimationFrameOrder of O3DVisualizer.cpp\<close>

text \<open>
  The class \<^verbatim>\<open>AnimationFrameOrder\<close> keeps a \<^verbatim>\<open>std::vector<double>\<close> and
  offers \<^verbatim>\<open>AddValue\<close>, \<^verbatim>\<open>RemoveValue\<close>, \<^verbatim>\<open>GetFrameForValue\<close> and
  \<^verbatim>\<open>GetNumberOfFrames\<close>. Each of the first three starts with
  \<^verbatim>\<open>std::lower_bound(values_.begin(), values_.end(), order)\<close>.
\<close>

subsection \<open>Values of type double\<close>

text \<open>
  A \<^verbatim>\<open>double\<close> is an IEEE 754 binary64 datum: bit 63 is the sign, bits 62..52 the
  exponent, bits 51..0 the fraction. The class only ever compares doubles, with
  \<^verbatim>\<open><\<close> (inside \<^verbatim>\<open>std::lower_bound\<close>) and with \<^verbatim>\<open>!=\<close>. A datum is a NaN
  when its exponent is all ones and its fraction is not zero, that is, when its low 63
  bits exceed those of infinity. For the other data the order of the values is the
  order of the sign-magnitude integers \<open>dkey\<close>; both zeros have key 0.
  Every comparison with a NaN is false, except \<^verbatim>\<open>!=\<close>, which is true.
\<close>

type_synonym double = "64 word"

definition isnan :: "double \<Rightarrow> bool" where
  "isnan d \<longleftrightarrow> 0x7FF0000000000000 < take_bit 63 d"

definition dkey :: "double \<Rightarrow> int" where
  "dkey d = (if bit d 63 then - uint (take_bit 63 d) else uint (take_bit 63 d))"

text \<open>\<^verbatim>\<open>a < b\<close> on doubles.\<close>

definition dless :: "double \<Rightarrow> double \<Rightarrow> bool" where
  "dless a b \<longleftrightarrow> \<not> isnan a \<and> \<not> isnan b \<and> dkey a < dkey b"

text \<open>\<^verbatim>\<open>a != b\<close> on doubles; \<open>deq\<close> is \<^verbatim>\<open>a == b\<close>.\<close>

definition dneq :: "double \<Rightarrow> double \<Rightarrow> bool" where
  "dneq a b \<longleftrightarrow> isnan a \<or> isnan b \<or> dkey a \<noteq> dkey b"

definition deq :: "double \<Rightarrow> double \<Rightarrow> bool" where
  "deq a b \<longleftrightarrow> \<not> dneq a b"

text \<open>Some literals: 1.0, 2.0, 3.0, +0.0, -0.0 and the quiet NaN.\<close>

definition d1 :: double where "d1 = 0x3FF0000000000000"
definition d2 :: double where "d2 = 0x4000000000000000"
definition d3 :: double where "d3 = 0x4008000000000000"
definition dzero :: double where "dzero = 0x0000000000000000"
definition dnegzero :: double where "dnegzero = 0x8000000000000000"
definition dnan :: double where "dnan = 0x7FF8000000000000"

subsection \<open>The vector and its iterators\<close>

text \<open>
  The vector is a list, an iterator an index into it, \<^verbatim>\<open>end()\<close> the length. An
  operation of the vector that the C++ standard leaves undefined (reading through an
  iterator that is not dereferenceable, erasing at \<^verbatim>\<open>end()\<close>, inserting past it)
  yields \<open>None\<close>.
\<close>

definition deref :: "'a list \<Rightarrow> nat \<Rightarrow> 'a option" where
  "deref xs it = (if it < length xs then Some (xs ! it) else None)"

definition push_back :: "'a list \<Rightarrow> 'a \<Rightarrow> 'a list" where
  "push_back xs x = xs @ [x]"

definition vec_insert :: "'a list \<Rightarrow> nat \<Rightarrow> 'a \<Rightarrow> 'a list option" where
  "vec_insert xs it x = (if it \<le> length xs then Some (take it xs @ x # drop it xs) else None)"

definition vec_erase :: "'a list \<Rightarrow> nat \<Rightarrow> 'a list option" where
  "vec_erase xs it = (if it < length xs then Some (take it xs @ drop (Suc it) xs) else None)"

text \<open>
  \<^verbatim>\<open>std::lower_bound\<close> is the binary search of the standard library:
  \<^verbatim>\<open>
  len = last - first;
  while (len > 0) {
      half = len >> 1;  middle = first + half;
      if (*middle < val) { first = middle + 1; len = len - half - 1; }
      else len = half;
  }
  return first;
  \<close>
  The standard asks for a range that is partitioned with respect to \<^verbatim>\<open>e < val\<close>; the
  loop itself runs on every range, and the model follows the loop. Each read of
  \<^verbatim>\<open>*middle\<close> is checked against the bounds of the vector.
\<close>

function lower_bound_loop :: "double list \<Rightarrow> double \<Rightarrow> nat \<Rightarrow> nat \<Rightarrow> nat option" where
  "lower_bound_loop xs val first len =
     (if 0 < len then
        (case deref xs (first + len div 2) of
           None \<Rightarrow> None
         | Some m \<Rightarrow>
             if dless m val
             then lower_bound_loop xs val (first + len div 2 + 1) (len - len div 2 - 1)
             else lower_bound_loop xs val first (len div 2))
      else Some first)"
  by pat_completeness auto
termination
  by (relation "measure (\<lambda>(xs, val, first, len). len)") auto

declare lower_bound_loop.simps [simp del]

definition lower_bound :: "double list \<Rightarrow> double \<Rightarrow> nat option" where
  "lower_bound xs val = lower_bound_loop xs val 0 (length xs)"

subsection \<open>The class\<close>

text \<open>The only member is \<^verbatim>\<open>values_\<close>; \<^verbatim>\<open>size_t\<close> has \<open>LENGTH('w)\<close> bits.\<close>

record AnimationFrameOrder =
  vals :: "double list"

definition empty_order :: AnimationFrameOrder where
  "empty_order = \<lparr>vals = []\<rparr>"

definition AddValue :: "AnimationFrameOrder \<Rightarrow> double \<Rightarrow> AnimationFrameOrder option" where
  "AddValue s order =
     do {
       it \<leftarrow> lower_bound (vals s) order;
       if it = length (vals s) then Some (s\<lparr>vals := push_back (vals s) order\<rparr>)
       else do {
         x \<leftarrow> deref (vals s) it;
         if dneq x order
         then do { ys \<leftarrow> vec_insert (vals s) it order; Some (s\<lparr>vals := ys\<rparr>) }
         else Some s
       }
     }"

definition RemoveValue :: "AnimationFrameOrder \<Rightarrow> double \<Rightarrow> AnimationFrameOrder option" where
  "RemoveValue s order =
     do {
       it \<leftarrow> lower_bound (vals s) order;
       if it \<noteq> length (vals s)
       then do { ys \<leftarrow> vec_erase (vals s) it; Some (s\<lparr>vals := ys\<rparr>) }
       else Some s
     }"

definition GetFrameForValue :: "AnimationFrameOrder \<Rightarrow> double \<Rightarrow> 'w::len word option" where
  "GetFrameForValue s order =
     do {
       it \<leftarrow> lower_bound (vals s) order;
       if it \<noteq> length (vals s) then Some (of_nat it) else Some (- 1)
     }"

definition GetNumberOfFrames :: "AnimationFrameOrder \<Rightarrow> 'w::len word" where
  "GetNumberOfFrames s = of_nat (length (vals s))"

text \<open>A run of \<^verbatim>\<open>AddValue\<close> calls, one value after the other.\<close>

fun AddValues :: "AnimationFrameOrder \<Rightarrow> double list \<Rightarrow> AnimationFrameOrder option" where
  "AddValues s [] = Some s"
| "AddValues s (v # vs) = do { s' \<leftarrow> AddValue s v; AddValues s' vs }"

subsection \<open>Vocabulary of the properties\<close>

text \<open>
  A value is stored when some element equals it under \<^verbatim>\<open>==\<close>. The sequence is
  strictly increasing when \<^verbatim>\<open><\<close> holds from each element to every later one.
\<close>

definition stored :: "AnimationFrameOrder \<Rightarrow> double \<Rightarrow> bool" where
  "stored s v \<longleftrightarrow> list_ex (\<lambda>x. deq x v) (vals s)"

definition strictly_increasing :: "double list \<Rightarrow> bool" where
  "strictly_increasing xs \<longleftrightarrow> sorted_wrt dless xs"

definition nan_free :: "double list \<Rightarrow> bool" where
  "nan_free xs \<longleftrightarrow> list_all (\<lambda>x. \<not> isnan x) xs"

definition ordered :: "AnimationFrameOrder \<Rightarrow> bool" where
  "ordered s \<longleftrightarrow> nan_free (vals s) \<and> strictly_increasing (vals s)"

text \<open>
  The states built from the empty index by calls of \<^verbatim>\<open>AddValue\<close> with values that
  are not NaN and by calls of \<^verbatim>\<open>RemoveValue\<close> with any value.
\<close>

inductive built :: "AnimationFrameOrder \<Rightarrow> bool" where
  built_empty: "built empty_order"
| built_add: "built s \<Longrightarrow> \<not> isnan v \<Longrightarrow> AddValue s v = Some s' \<Longrightarrow> built s'"
| built_remove: "built s \<Longrightarrow> RemoveValue s v = Some s' \<Longrightarrow> built s'"

text \<open>The number of stored values strictly less than \<open>v\<close>.\<close>

definition count_less :: "double list \<Rightarrow> double \<Rightarrow> nat" where
  "count_less xs v = length (filter (\<lambda>x. dless x v) xs)"

section \<open>Facts about doubles\<close>

lemma isnan_lits [simp]:
  "\<not> isnan d1" "\<not> isnan d2" "\<not> isnan d3" "\<not> isnan dzero" "\<not> isnan dnegzero" "isnan dnan"
  by (simp_all add: isnan_def d1_def d2_def d3_def dzero_def dnegzero_def dnan_def)

lemma dkey_lits [simp]:
  "dkey d1 = 0x3FF0000000000000" "dkey d2 = 0x4000000000000000"
  "dkey d3 = 0x4008000000000000" "dkey dzero = 0" "dkey dnegzero = 0"
  by (simp_all add: dkey_def d1_def d2_def d3_def dzero_def dnegzero_def)

lemma lits_distinct [simp]:
  "d1 \<noteq> d2" "d1 \<noteq> d3" "d2 \<noteq> d3" "d2 \<noteq> d1" "d3 \<noteq> d1" "d3 \<noteq> d2" "dzero \<noteq> dnegzero"
  by (simp_all add: d1_def d2_def d3_def dzero_def dnegzero_def)

lemma dless_lits [simp]:
  "dless d1 d2" "dless d1 d3" "dless d2 d3" "\<not> dless d2 d1" "\<not> dless d3 d1" "\<not> dless d3 d2"
  "\<not> dless d1 d1" "\<not> dless d2 d2" "\<not> dless d3 d3"
  "\<not> dless dnan x" "\<not> dless x dnan"
  by (simp_all add: dless_def)

lemma dneq_lits [simp]:
  "dneq d1 d2" "dneq d1 d3" "dneq d2 d3" "dneq d2 d1" "dneq d3 d1" "dneq d3 d2"
  "\<not> dneq d1 d1" "\<not> dneq d2 d2" "\<not> dneq d3 d3" "\<not> dneq dzero dnegzero" "\<not> dneq dnegzero dzero"
  "dneq dnan x" "dneq x dnan"
  by (simp_all add: dneq_def)

lemmas run_defs = AddValue_def RemoveValue_def GetFrameForValue_def lower_bound_def
  lower_bound_loop.simps deref_def vec_insert_def vec_erase_def push_back_def

section \<open>The binary search\<close>

lemma dless_iff: "dless a b \<longleftrightarrow> \<not> isnan a \<and> \<not> isnan b \<and> dkey a < dkey b"
  by (simp add: dless_def)

lemma deq_iff: "deq a b \<longleftrightarrow> \<not> isnan a \<and> \<not> isnan b \<and> dkey a = dkey b"
  by (auto simp: deq_def dneq_def)

lemma lower_bound_loop_total:
  "first + len \<le> length xs \<Longrightarrow>
   \<exists>r. lower_bound_loop xs val first len = Some r \<and> first \<le> r \<and> r \<le> first + len"
proof (induction xs val first len rule: lower_bound_loop.induct)
  case (1 xs val first len)
  show ?case
  proof (cases "0 < len")
    case False
    then show ?thesis by (simp add: lower_bound_loop.simps)
  next
    case True
    let ?mid = "first + len div 2"
    from True "1.prems" have mid: "?mid < length xs" by simp
    then have d: "deref xs ?mid = Some (xs ! ?mid)" by (simp add: deref_def)
    show ?thesis
    proof (cases "dless (xs ! ?mid) val")
      case less: True
      from "1.prems" True have "?mid + 1 + (len - len div 2 - 1) \<le> length xs" by simp
      from "1.IH"(1) [OF True d less this]
      obtain r where "lower_bound_loop xs val (?mid + 1) (len - len div 2 - 1) = Some r"
        "?mid + 1 \<le> r" "r \<le> ?mid + 1 + (len - len div 2 - 1)" by blast
      with True d less show ?thesis
        by (subst lower_bound_loop.simps) auto
    next
      case nless: False
      from "1.prems" have "first + len div 2 \<le> length xs" by simp
      from "1.IH"(2) [OF True d nless this]
      obtain r where "lower_bound_loop xs val first (len div 2) = Some r"
        "first \<le> r" "r \<le> first + len div 2" by blast
      with True d nless show ?thesis
        by (subst lower_bound_loop.simps) auto
    qed
  qed
qed

lemma lower_bound_loop_all_less:
  "first + len \<le> length xs \<Longrightarrow> (\<And>i. first \<le> i \<Longrightarrow> i < first + len \<Longrightarrow> dless (xs ! i) val) \<Longrightarrow>
   lower_bound_loop xs val first len = Some (first + len)"
proof (induction xs val first len rule: lower_bound_loop.induct)
  case (1 xs val first len)
  show ?case
  proof (cases "0 < len")
    case False
    then show ?thesis by (simp add: lower_bound_loop.simps)
  next
    case True
    let ?mid = "first + len div 2"
    from True "1.prems"(1) have mid: "?mid < length xs" by simp
    then have d: "deref xs ?mid = Some (xs ! ?mid)" by (simp add: deref_def)
    from True have less: "dless (xs ! ?mid) val" by (intro "1.prems"(2)) simp_all
    from "1.prems"(1) True have b: "?mid + 1 + (len - len div 2 - 1) \<le> length xs" by simp
    have "lower_bound_loop xs val (?mid + 1) (len - len div 2 - 1) = Some (?mid + 1 + (len - len div 2 - 1))"
      by (rule "1.IH"(1) [OF True d less b]) (simp add: "1.prems"(2))
    with True d less show ?thesis
      by (subst lower_bound_loop.simps) simp
  qed
qed

lemma count_less_Cons:
  "count_less (x # xs) v = (if dless x v then Suc (count_less xs v) else count_less xs v)"
  by (simp add: count_less_def)

lemma sorted_index_less:
  "strictly_increasing xs \<Longrightarrow> nan_free xs \<Longrightarrow> i < length xs \<Longrightarrow>
   dless (xs ! i) v \<longleftrightarrow> i < count_less xs v"
proof (induction xs arbitrary: i)
  case Nil
  then show ?case by simp
next
  case (Cons x xs)
  from Cons.prems have si: "strictly_increasing xs" and nf: "nan_free xs"
    and above: "\<forall>y\<in>set xs. dless x y" and xn: "\<not> isnan x"
    by (simp_all add: strictly_increasing_def nan_free_def)
  show ?case
  proof (cases "dless x v")
    case True
    then show ?thesis
      using Cons.IH [OF si nf] Cons.prems(3)
      by (cases i) (simp_all add: count_less_Cons)
  next
    case False
    have "\<not> dless y v" if "y \<in> set xs" for y
      using that above False xn by (auto simp: dless_iff)
    then have "filter (\<lambda>y. dless y v) xs = []" by (simp add: filter_empty_conv)
    then have z: "count_less (x # xs) v = 0" using False by (simp add: count_less_def)
    have "\<not> dless ((x # xs) ! i) v"
      using False \<open>\<And>y. y \<in> set xs \<Longrightarrow> \<not> dless y v\<close> Cons.prems(3) by (cases i) simp_all
    with z show ?thesis by simp
  qed
qed

lemma count_less_le: "count_less xs v \<le> length xs"
  by (simp add: count_less_def)

lemma lower_bound_loop_sorted:
  "strictly_increasing xs \<Longrightarrow> nan_free xs \<Longrightarrow> first \<le> count_less xs val \<Longrightarrow>
   count_less xs val \<le> first + len \<Longrightarrow> first + len \<le> length xs \<Longrightarrow>
   lower_bound_loop xs val first len = Some (count_less xs val)"
proof (induction xs val first len rule: lower_bound_loop.induct)
  case (1 xs val first len)
  note si = "1.prems"(1) and nf = "1.prems"(2)
  show ?case
  proof (cases "0 < len")
    case False
    with "1.prems" show ?thesis by (simp add: lower_bound_loop.simps)
  next
    case True
    let ?mid = "first + len div 2"
    from True "1.prems"(5) have mid: "?mid < length xs" by simp
    then have d: "deref xs ?mid = Some (xs ! ?mid)" by (simp add: deref_def)
    note probe = sorted_index_less [OF si nf mid, of val]
    show ?thesis
    proof (cases "dless (xs ! ?mid) val")
      case less: True
      with probe have "?mid + 1 \<le> count_less xs val" by simp
      moreover from "1.prems"(4) True
      have "count_less xs val \<le> ?mid + 1 + (len - len div 2 - 1)" by simp
      moreover from "1.prems"(5) True
      have "?mid + 1 + (len - len div 2 - 1) \<le> length xs" by simp
      ultimately
      have "lower_bound_loop xs val (?mid + 1) (len - len div 2 - 1) = Some (count_less xs val)"
        by (rule "1.IH"(1) [OF True d less si nf])
      with True d less show ?thesis
        by (subst lower_bound_loop.simps) simp
    next
      case nless: False
      with probe have "count_less xs val \<le> ?mid" by simp
      moreover from "1.prems"(5) have "first + len div 2 \<le> length xs" by simp
      ultimately
      have "lower_bound_loop xs val first (len div 2) = Some (count_less xs val)"
        by (intro "1.IH"(2) [OF True d nless si nf "1.prems"(3)])
      with True d nless show ?thesis
        by (subst lower_bound_loop.simps) simp
    qed
  qed
qed

lemma lower_bound_total: "\<exists>it. lower_bound xs val = Some it \<and> it \<le> length xs"
  using lower_bound_loop_total [of 0 "length xs" xs val] by (auto simp: lower_bound_def)

lemma lower_bound_all_less:
  "\<forall>x\<in>set xs. dless x val \<Longrightarrow> lower_bound xs val = Some (length xs)"
  using lower_bound_loop_all_less [of 0 "length xs" xs val] by (simp add: lower_bound_def)

lemma lower_bound_ordered:
  "ordered s \<Longrightarrow> lower_bound (vals s) val = Some (count_less (vals s) val)"
  using lower_bound_loop_sorted [of "vals s" 0 val "length (vals s)"]
  by (simp add: lower_bound_def ordered_def count_less_le)

text \<open>In an ordered state the element at the lower bound, if there is one, is not below the value.\<close>

lemma at_count_not_less:
  "ordered s \<Longrightarrow> count_less (vals s) v < length (vals s) \<Longrightarrow> \<not> dless (vals s ! count_less (vals s) v) v"
  using sorted_index_less [of "vals s" "count_less (vals s) v" v] by (simp add: ordered_def)

lemma nan_free_nth: "nan_free xs \<Longrightarrow> i < length xs \<Longrightarrow> \<not> isnan (xs ! i)"
  by (simp add: nan_free_def list_all_length)

lemma strictly_increasing_nth:
  "strictly_increasing xs \<Longrightarrow> i < j \<Longrightarrow> j < length xs \<Longrightarrow> dless (xs ! i) (xs ! j)"
  by (simp add: strictly_increasing_def sorted_wrt_iff_nth_less)

lemma stored_iff_at_count:
  assumes "ordered s"
  shows "stored s v \<longleftrightarrow>
    count_less (vals s) v < length (vals s) \<and> deq (vals s ! count_less (vals s) v) v"
proof
  let ?xs = "vals s" and ?c = "count_less (vals s) v"
  from assms have si: "strictly_increasing ?xs" and nf: "nan_free ?xs" by (simp_all add: ordered_def)
  assume "stored s v"
  then obtain j where j: "j < length ?xs" and e: "deq (?xs ! j) v"
    by (auto simp: stored_def list_ex_length)
  from e have "\<not> dless (?xs ! j) v" by (simp add: deq_iff dless_iff)
  with sorted_index_less [OF si nf j, of v] have cj: "?c \<le> j" by simp
  with j have c: "?c < length ?xs" by simp
  have "?c = j"
  proof (rule ccontr)
    assume "?c \<noteq> j"
    with cj have "?c < j" by simp
    from strictly_increasing_nth [OF si this j] e have "dless (?xs ! ?c) v"
      by (simp add: deq_iff dless_iff)
    with at_count_not_less [OF assms c] show False by simp
  qed
  with c e show "?c < length ?xs \<and> deq (?xs ! ?c) v" by simp
next
  assume "count_less (vals s) v < length (vals s) \<and> deq (vals s ! count_less (vals s) v) v"
  then show "stored s v" by (auto simp: stored_def list_ex_length)
qed

section \<open>Totality and the sentinel\<close>

text \<open>
  Every operation returns for every state and every double, NaN, infinities and both
  zeros included: each element that the binary search reads, the element that
  \<^verbatim>\<open>AddValue\<close> compares with, the position it inserts at and the position
  \<^verbatim>\<open>RemoveValue\<close> erases all lie inside the vector, so no branch is undefined.
  \<^verbatim>\<open>GetNumberOfFrames\<close> only reads the size.
\<close>

lemma operations_total:
  "(\<exists>s'. AddValue s v = Some s') \<and> (\<exists>s'. RemoveValue s v = Some s') \<and>
   (\<exists>r :: 'w::len word. GetFrameForValue s v = Some r) \<and>
   (GetNumberOfFrames s :: 'w word) = of_nat (length (vals s))"
proof -
  obtain it where it: "lower_bound (vals s) v = Some it" "it \<le> length (vals s)"
    using lower_bound_total by blast
  then show ?thesis
    by (auto simp: AddValue_def RemoveValue_def GetFrameForValue_def GetNumberOfFrames_def
        deref_def vec_insert_def vec_erase_def)
qed

text \<open>
  C8. The operations are to be total, and a query on an absent value is to be a no-op or
  to yield the sentinel. They are total (\<open>operations_total\<close>), but with 1.0 and 3.0
  stored the absent 2.0 is handled as if it were 3.0: \<^verbatim>\<open>RemoveValue(2.0)\<close> returns a
  changed state and \<^verbatim>\<open>GetFrameForValue(2.0)\<close> returns a frame, not the sentinel.
\<close>

theorem absent_value_not_noop:
  "\<not> stored \<lparr>vals = [d1, d3]\<rparr> d2 \<and>
   (\<exists>s'. RemoveValue \<lparr>vals = [d1, d3]\<rparr> d2 = Some s' \<and> s' \<noteq> \<lparr>vals = [d1, d3]\<rparr>) \<and>
   (\<exists>r. GetFrameForValue \<lparr>vals = [d1, d3]\<rparr> d2 = Some r \<and> r \<noteq> (- 1 :: 64 word))"
  by (simp add: run_defs stored_def deq_def)

text \<open>
  C9. When the queried value is strictly greater than every stored value,
  \<^verbatim>\<open>GetFrameForValue\<close> returns \<^verbatim>\<open>-1\<close> converted to \<^verbatim>\<open>size_t\<close>, which is
  \<open>2 ^ w - 1\<close> for a \<open>w\<close>-bit \<^verbatim>\<open>size_t\<close>; no position of a vector whose size fits
  \<^verbatim>\<open>size_t\<close> converts to that value.
\<close>

theorem GetFrameForValue_sentinel:
  "\<forall>x\<in>set (vals s). dless x v \<Longrightarrow>
   GetFrameForValue s v = Some (- 1 :: 'w::len word) \<and>
   unat (- 1 :: 'w word) = 2 ^ LENGTH('w) - 1 \<and>
   (length (vals s) < 2 ^ LENGTH('w) \<longrightarrow> (\<forall>i<length (vals s). (of_nat i :: 'w word) \<noteq> - 1))"
proof (intro conjI impI allI)
  assume "\<forall>x\<in>set (vals s). dless x v"
  then show "GetFrameForValue s v = Some (- 1 :: 'w word)"
    by (simp add: GetFrameForValue_def lower_bound_all_less)
next
  show "unat (- 1 :: 'w word) = 2 ^ LENGTH('w) - 1"
    by (simp add: unsigned_minus_1_eq_mask mask_eq_exp_minus_1)
next
  fix i
  assume len: "length (vals s) < 2 ^ LENGTH('w)" and i: "i < length (vals s)"
  show "(of_nat i :: 'w word) \<noteq> - 1"
  proof
    assume "(of_nat i :: 'w word) = - 1"
    then have "unat (of_nat i :: 'w word) = unat (- 1 :: 'w word)" by simp
    moreover from len i have "unat (of_nat i :: 'w word) = i"
      by (simp add: unat_of_nat)
    ultimately have "i = 2 ^ LENGTH('w) - 1"
      by (simp add: unsigned_minus_1_eq_mask mask_eq_exp_minus_1)
    with len i show False by simp
  qed
qed

text \<open>With 1.0 and 2.0 stored and a 64-bit \<^verbatim>\<open>size_t\<close>, the query 3.0 yields the sentinel.\<close>

theorem GetFrameForValue_sentinel_witness:
  "dless d1 d3 \<and> dless d2 d3 \<and>
   GetFrameForValue \<lparr>vals = [d1, d2]\<rparr> d3 = Some (- 1 :: 64 word) \<and>
   unat (- 1 :: 64 word) = 2 ^ 64 - 1 \<and>
   length (vals \<lparr>vals = [d1, d2]\<rparr>) < 2 ^ 64 \<and>
   (of_nat 0 :: 64 word) \<noteq> - 1 \<and> (of_nat 1 :: 64 word) \<noteq> - 1"
  using GetFrameForValue_sentinel [of "\<lparr>vals = [d1, d2]\<rparr>" d3, where 'w = 64]
  by simp

section \<open>The missing equality test\<close>

text \<open>
  C1. \<^verbatim>\<open>GetFrameForValue\<close> is to return the sentinel for a value that is not
  stored. It returns the lower bound whenever that is not \<^verbatim>\<open>end()\<close>, without the test
  \<^verbatim>\<open>*it != order\<close> that \<^verbatim>\<open>AddValue\<close> makes: with 1.0 and 3.0 stored, the
  absent 2.0 gets frame 1, the frame of 3.0.
\<close>

theorem GetFrameForValue_absent_gets_frame:
  "\<not> stored \<lparr>vals = [d1, d3]\<rparr> d2 \<and>
   GetFrameForValue \<lparr>vals = [d1, d3]\<rparr> d2 = Some (1 :: 64 word) \<and>
   GetFrameForValue \<lparr>vals = [d1, d3]\<rparr> d3 = Some (1 :: 64 word)"
  by (simp add: run_defs stored_def deq_def)

text \<open>
  C2. \<^verbatim>\<open>RemoveValue\<close> is to leave the sequence alone when the value is not stored.
  It erases at the lower bound whenever that is not \<^verbatim>\<open>end()\<close>: with 1.0 and 3.0
  stored, removing the absent 2.0 erases 3.0.
\<close>

theorem RemoveValue_absent_erases:
  "\<not> stored \<lparr>vals = [d1, d3]\<rparr> d2 \<and>
   RemoveValue \<lparr>vals = [d1, d3]\<rparr> d2 = Some \<lparr>vals = [d1]\<rparr>"
  by (simp add: run_defs stored_def deq_def)

section \<open>Ordered states\<close>

text \<open>
  A state is ordered when its vector is NaN-free and strictly increasing. In such a state
  the binary search returns the number of elements below the value.
\<close>

lemma ordered_split:
  "strictly_increasing xs \<Longrightarrow> nan_free xs \<Longrightarrow>
   take (count_less xs v) xs = filter (\<lambda>x. dless x v) xs \<and>
   drop (count_less xs v) xs = filter (\<lambda>x. \<not> dless x v) xs"
proof (induction xs)
  case Nil
  then show ?case by (simp add: count_less_def)
next
  case (Cons x xs)
  from Cons.prems have si: "strictly_increasing xs" and nf: "nan_free xs"
    and above: "\<forall>y\<in>set xs. dless x y" and xn: "\<not> isnan x"
    by (simp_all add: strictly_increasing_def nan_free_def)
  show ?case
  proof (cases "dless x v")
    case True
    with Cons.IH [OF si nf] show ?thesis by (simp add: count_less_Cons)
  next
    case False
    have none: "\<forall>y\<in>set xs. \<not> dless y v"
      using above False xn by (auto simp: dless_iff)
    then have "filter (\<lambda>y. dless y v) xs = []" by (simp add: filter_empty_conv)
    moreover from none have "filter (\<lambda>y. \<not> dless y v) xs = xs" by (simp add: filter_id_conv)
    ultimately show ?thesis using False by (simp add: count_less_def)
  qed
qed

lemma set_take_count:
  "ordered s \<Longrightarrow> set (take (count_less (vals s) v) (vals s)) = {x \<in> set (vals s). dless x v}"
  using ordered_split [of "vals s" v] by (simp add: ordered_def)

lemma set_drop_count:
  "ordered s \<Longrightarrow> set (drop (count_less (vals s) v) (vals s)) = {x \<in> set (vals s). \<not> dless x v}"
  using ordered_split [of "vals s" v] by (simp add: ordered_def)

text \<open>What the operations do in an ordered state.\<close>

lemma AddValue_ordered:
  assumes "ordered s"
  shows "AddValue s v = Some (if stored s v then s
           else s\<lparr>vals := take (count_less (vals s) v) (vals s) @ v # drop (count_less (vals s) v) (vals s)\<rparr>)"
proof -
  let ?xs = "vals s" and ?c = "count_less (vals s) v"
  note lb = lower_bound_ordered [OF assms, of v]
  show ?thesis
  proof (cases "?c = length ?xs")
    case True
    with stored_iff_at_count [OF assms, of v] have "\<not> stored s v" by simp
    with lb True show ?thesis by (simp add: AddValue_def push_back_def)
  next
    case False
    with count_less_le [of ?xs v] have c: "?c < length ?xs" by simp
    with stored_iff_at_count [OF assms, of v]
    have "stored s v \<longleftrightarrow> \<not> dneq (?xs ! ?c) v" by (simp add: deq_def)
    with lb c show ?thesis by (simp add: AddValue_def deref_def vec_insert_def)
  qed
qed

lemma RemoveValue_ordered:
  assumes "ordered s"
  shows "RemoveValue s v = Some (if count_less (vals s) v < length (vals s)
           then s\<lparr>vals := take (count_less (vals s) v) (vals s) @ drop (Suc (count_less (vals s) v)) (vals s)\<rparr>
           else s)"
  using lower_bound_ordered [OF assms, of v] count_less_le [of "vals s" v]
  by (auto simp: RemoveValue_def vec_erase_def)

lemma GetFrameForValue_ordered:
  assumes "ordered s"
  shows "GetFrameForValue s v = Some (if count_less (vals s) v < length (vals s)
           then of_nat (count_less (vals s) v) else - 1)"
  using lower_bound_ordered [OF assms, of v] count_less_le [of "vals s" v]
  by (auto simp: GetFrameForValue_def)

lemma ordered_inserted:
  assumes o: "ordered s" and vn: "\<not> isnan v" and ns: "\<not> stored s v"
  shows "ordered (s\<lparr>vals := take (count_less (vals s) v) (vals s) @ v # drop (count_less (vals s) v) (vals s)\<rparr>)"
proof -
  let ?xs = "vals s" and ?c = "count_less (vals s) v"
  from o have si: "sorted_wrt dless ?xs" and nf: "\<forall>x\<in>set ?xs. \<not> isnan x"
    by (simp_all add: ordered_def strictly_increasing_def nan_free_def list_all_iff)
  from si have "sorted_wrt dless (take ?c ?xs @ drop ?c ?xs)" by simp
  then have parts: "sorted_wrt dless (take ?c ?xs)" "sorted_wrt dless (drop ?c ?xs)"
    "\<forall>x\<in>set (take ?c ?xs). \<forall>y\<in>set (drop ?c ?xs). dless x y"
    unfolding sorted_wrt_append by simp_all
  have below: "\<forall>x\<in>set (take ?c ?xs). dless x v"
    by (simp add: set_take_count [OF o])
  have above: "\<forall>y\<in>set (drop ?c ?xs). dless v y"
  proof
    fix y assume "y \<in> set (drop ?c ?xs)"
    then have y: "y \<in> set ?xs" "\<not> dless y v" by (simp_all add: set_drop_count [OF o])
    with ns have "\<not> deq y v" by (auto simp: stored_def list_ex_iff)
    with y nf vn show "dless v y" by (auto simp: deq_iff dless_iff)
  qed
  have "sorted_wrt dless (take ?c ?xs @ v # drop ?c ?xs)"
    using parts below above by (simp add: sorted_wrt_append)
  moreover have "\<forall>x\<in>set (take ?c ?xs @ v # drop ?c ?xs). \<not> isnan x"
    using nf vn by (auto dest: in_set_takeD in_set_dropD)
  ultimately show ?thesis
    by (simp add: ordered_def strictly_increasing_def nan_free_def list_all_iff)
qed

lemma ordered_erased:
  assumes o: "ordered s"
  shows "ordered (s\<lparr>vals := take n (vals s) @ drop (Suc n) (vals s)\<rparr>)"
proof -
  let ?xs = "vals s"
  from o have si: "sorted_wrt dless ?xs" and nf: "\<forall>x\<in>set ?xs. \<not> isnan x"
    by (simp_all add: ordered_def strictly_increasing_def nan_free_def list_all_iff)
  from si have "sorted_wrt dless (take n ?xs @ drop n ?xs)" by simp
  then have a: "sorted_wrt dless (take n ?xs)" and
    b: "sorted_wrt dless (drop n ?xs)" and
    c: "\<forall>x\<in>set (take n ?xs). \<forall>y\<in>set (drop n ?xs). dless x y"
    unfolding sorted_wrt_append by simp_all
  from b have "sorted_wrt dless (drop 1 (drop n ?xs))" by (rule sorted_wrt_drop)
  then have b': "sorted_wrt dless (drop (Suc n) ?xs)" by simp
  have "set (drop (Suc n) ?xs) \<subseteq> set (drop n ?xs)"
    by (rule set_drop_subset_set_drop) simp
  with c have "\<forall>x\<in>set (take n ?xs). \<forall>y\<in>set (drop (Suc n) ?xs). dless x y" by blast
  with a b' have "sorted_wrt dless (take n ?xs @ drop (Suc n) ?xs)"
    by (simp add: sorted_wrt_append)
  moreover have "\<forall>x\<in>set (take n ?xs @ drop (Suc n) ?xs). \<not> isnan x"
    using nf by (auto dest: in_set_takeD in_set_dropD)
  ultimately show ?thesis
    by (simp add: ordered_def strictly_increasing_def nan_free_def list_all_iff)
qed

lemma AddValue_keeps_ordered:
  "ordered s \<Longrightarrow> \<not> isnan v \<Longrightarrow> \<exists>s'. AddValue s v = Some s' \<and> ordered s'"
  by (simp add: AddValue_ordered ordered_inserted)

lemma RemoveValue_keeps_ordered:
  "ordered s \<Longrightarrow> \<exists>s'. RemoveValue s v = Some s' \<and> ordered s'"
  by (simp add: RemoveValue_ordered ordered_erased)

lemma ordered_empty: "ordered empty_order"
  by (simp add: ordered_def empty_order_def strictly_increasing_def nan_free_def)

text \<open>Every state built without inserting a NaN is ordered.\<close>

lemma built_ordered: "built s \<Longrightarrow> ordered s"
proof (induction rule: built.induct)
  case built_empty
  show ?case by (rule ordered_empty)
next
  case (built_add s v s')
  with AddValue_keeps_ordered [of s v] show ?case by auto
next
  case (built_remove s v s')
  with RemoveValue_keeps_ordered [of s v] show ?case by auto
qed

lemma AddValues_keeps_ordered:
  "ordered s \<Longrightarrow> nan_free ws \<Longrightarrow> \<exists>s'. AddValues s ws = Some s' \<and> ordered s'"
proof (induction ws arbitrary: s)
  case Nil
  then show ?case by simp
next
  case (Cons w ws)
  from Cons.prems have wn: "\<not> isnan w" and nf: "nan_free ws" by (simp_all add: nan_free_def)
  from AddValue_keeps_ordered [OF Cons.prems(1) wn]
  obtain t where t: "AddValue s w = Some t" "ordered t" by blast
  from Cons.IH [OF t(2) nf] t(1) show ?case by simp
qed

lemma strictly_increasing_distinct: "strictly_increasing xs \<Longrightarrow> distinct xs"
  unfolding strictly_increasing_def
  by (induction xs) (auto simp: dless_def)

lemma strictly_increasing_dneq: "strictly_increasing xs \<Longrightarrow> sorted_wrt dneq xs"
  unfolding strictly_increasing_def
  by (rule sorted_wrt_mono_rel [of xs dless]) (auto simp: dless_def dneq_def)

section \<open>Sequences of insertions\<close>

lemma lower_bound_loop_none_less:
  "first + len \<le> length xs \<Longrightarrow> (\<And>i. first \<le> i \<Longrightarrow> i < first + len \<Longrightarrow> \<not> dless (xs ! i) val) \<Longrightarrow>
   lower_bound_loop xs val first len = Some first"
proof (induction xs val first len rule: lower_bound_loop.induct)
  case (1 xs val first len)
  show ?case
  proof (cases "0 < len")
    case False
    then show ?thesis by (simp add: lower_bound_loop.simps)
  next
    case True
    let ?mid = "first + len div 2"
    from True "1.prems"(1) have mid: "?mid < length xs" by simp
    then have d: "deref xs ?mid = Some (xs ! ?mid)" by (simp add: deref_def)
    from True have nless: "\<not> dless (xs ! ?mid) val" by (intro "1.prems"(2)) simp_all
    from "1.prems"(1) have b: "first + len div 2 \<le> length xs" by simp
    have "lower_bound_loop xs val first (len div 2) = Some first"
      by (rule "1.IH"(2) [OF True d nless b]) (simp add: "1.prems"(2))
    with True d nless show ?thesis
      by (subst lower_bound_loop.simps) simp
  qed
qed

lemma lower_bound_nan: "isnan val \<Longrightarrow> lower_bound xs val = Some 0"
  using lower_bound_loop_none_less [of 0 "length xs" xs val]
  by (simp add: lower_bound_def dless_def)

text \<open>
  C3 (as amended). Starting from the empty index, after any finite run of
  \<^verbatim>\<open>AddValue\<close> calls none of whose values is a NaN, every call has returned and the
  stored sequence is strictly increasing under \<^verbatim>\<open><\<close>; it holds no datum twice and no
  two elements that are equal under \<^verbatim>\<open>==\<close>.
\<close>

theorem AddValues_strictly_increasing:
  "nan_free ws \<Longrightarrow>
   \<exists>s. AddValues empty_order ws = Some s \<and> strictly_increasing (vals s) \<and>
       distinct (vals s) \<and> sorted_wrt dneq (vals s)"
  using AddValues_keeps_ordered [OF ordered_empty, of ws]
  by (auto simp: ordered_def strictly_increasing_distinct strictly_increasing_dneq)

text \<open>Inserting 3.0, 1.0, 2.0.\<close>

theorem AddValues_strictly_increasing_witness:
  "nan_free [d3, d1, d2] \<and>
   (\<exists>s. AddValues empty_order [d3, d1, d2] = Some s \<and> strictly_increasing (vals s) \<and>
       distinct (vals s) \<and> sorted_wrt dneq (vals s))"
  using AddValues_strictly_increasing [of "[d3, d1, d2]"]
  by (simp add: nan_free_def)

text \<open>
  C3 as stated allows arbitrary values. A NaN is not found by the search and is unequal
  to every element, so inserting it twice stores it twice.
\<close>

theorem AddValue_nan_twice_counterexample:
  "AddValues empty_order [dnan, dnan] = Some \<lparr>vals = [dnan, dnan]\<rparr> \<and>
   \<not> strictly_increasing [dnan, dnan] \<and> \<not> distinct [dnan, dnan]"
  by (simp add: run_defs empty_order_def strictly_increasing_def)

text \<open>
  C4 (as amended). In every state that is NaN-free and strictly increasing, for every
  stored value \<open>v\<close>, \<^verbatim>\<open>GetFrameForValue(v)\<close> is the number of stored values strictly
  less than \<open>v\<close>, converted to \<^verbatim>\<open>size_t\<close>; and after inserting 3.0, 1.0, 2.0 into the
  empty index the frames of 1.0, 2.0, 3.0 are 0, 1, 2.
\<close>

theorem GetFrameForValue_counts_less:
  "(ordered s \<and> stored s v \<longrightarrow>
      GetFrameForValue s v = Some (of_nat (count_less (vals s) v) :: 'w::len word)) \<and>
   (\<exists>t. AddValues empty_order [d3, d1, d2] = Some t \<and>
      GetFrameForValue t d1 = Some (0 :: 'w word) \<and>
      GetFrameForValue t d2 = Some (1 :: 'w word) \<and>
      GetFrameForValue t d3 = Some (2 :: 'w word))"
proof (intro conjI impI)
  assume "ordered s \<and> stored s v"
  then show "GetFrameForValue s v = Some (of_nat (count_less (vals s) v) :: 'w word)"
    using stored_iff_at_count [of s v] by (simp add: GetFrameForValue_ordered)
next
  have "AddValues empty_order [d3, d1, d2] = Some \<lparr>vals = [d1, d2, d3]\<rparr>"
    by (simp add: run_defs empty_order_def)
  moreover have "GetFrameForValue \<lparr>vals = [d1, d2, d3]\<rparr> d1 = Some (0 :: 'w word)"
    "GetFrameForValue \<lparr>vals = [d1, d2, d3]\<rparr> d2 = Some (1 :: 'w word)"
    "GetFrameForValue \<lparr>vals = [d1, d2, d3]\<rparr> d3 = Some (2 :: 'w word)"
    by (simp_all add: run_defs)
  ultimately show "\<exists>t. AddValues empty_order [d3, d1, d2] = Some t \<and>
      GetFrameForValue t d1 = Some (0 :: 'w word) \<and>
      GetFrameForValue t d2 = Some (1 :: 'w word) \<and>
      GetFrameForValue t d3 = Some (2 :: 'w word)" by simp
qed

lemma ordered_123: "ordered \<lparr>vals = [d1, d2, d3]\<rparr>"
  by (simp add: ordered_def nan_free_def strictly_increasing_def)

lemma stored_123: "stored \<lparr>vals = [d1, d2, d3]\<rparr> d1" "stored \<lparr>vals = [d1, d2, d3]\<rparr> d2" "stored \<lparr>vals = [d1, d2, d3]\<rparr> d3"
  by (simp_all add: stored_def deq_def)

text \<open>With 1.0, 2.0, 3.0 stored, two values are below 3.0 and its frame is 2.\<close>

theorem GetFrameForValue_counts_less_witness:
  "ordered \<lparr>vals = [d1, d2, d3]\<rparr> \<and> stored \<lparr>vals = [d1, d2, d3]\<rparr> d3 \<and>
   GetFrameForValue \<lparr>vals = [d1, d2, d3]\<rparr> d3 = Some (of_nat (count_less [d1, d2, d3] d3) :: 64 word) \<and>
   count_less [d1, d2, d3] d3 = 2"
  using GetFrameForValue_counts_less [of "\<lparr>vals = [d1, d2, d3]\<rparr>" d3, where 'w = 64]
  by (simp add: ordered_123 stored_123 count_less_def)

text \<open>
  C4 as stated speaks of every stored value. Inserting 1.0, NaN, 2.0 leaves the NaN in
  front; 2.0 is then found at position 2 while only one stored value is less than it.
\<close>

theorem GetFrameForValue_nan_state_counterexample:
  "AddValues empty_order [d1, dnan, d2] = Some \<lparr>vals = [dnan, d1, d2]\<rparr> \<and>
   stored \<lparr>vals = [dnan, d1, d2]\<rparr> d2 \<and>
   GetFrameForValue \<lparr>vals = [dnan, d1, d2]\<rparr> d2 = Some (2 :: 64 word) \<and>
   count_less [dnan, d1, d2] d2 = 1"
  by (simp add: run_defs empty_order_def stored_def deq_def count_less_def)

text \<open>
  C5 (as amended). In every state that is NaN-free and strictly increasing, for every
  value that is already stored, \<^verbatim>\<open>AddValue\<close> returns the state unchanged, and so
  \<^verbatim>\<open>GetNumberOfFrames\<close> is unchanged.
\<close>

theorem AddValue_idempotent:
  "ordered s \<Longrightarrow> stored s v \<Longrightarrow>
   \<exists>s'. AddValue s v = Some s' \<and> s' = s \<and>
     (GetNumberOfFrames s' :: 'w::len word) = GetNumberOfFrames s"
  by (simp add: AddValue_ordered)

text \<open>Inserting 2.0 again with 1.0, 2.0, 3.0 stored.\<close>

theorem AddValue_idempotent_witness:
  "ordered \<lparr>vals = [d1, d2, d3]\<rparr> \<and> stored \<lparr>vals = [d1, d2, d3]\<rparr> d2 \<and>
   (\<exists>s'. AddValue \<lparr>vals = [d1, d2, d3]\<rparr> d2 = Some s' \<and> s' = \<lparr>vals = [d1, d2, d3]\<rparr> \<and>
     (GetNumberOfFrames s' :: 64 word) = GetNumberOfFrames \<lparr>vals = [d1, d2, d3]\<rparr>)"
  using AddValue_idempotent [of "\<lparr>vals = [d1, d2, d3]\<rparr>" d2, where 'w = 64]
  by (simp add: ordered_123 stored_123)

text \<open>
  C5 as stated speaks of every state. After inserting 1.0 and then NaN the vector is
  NaN, 1.0; the search for the stored 1.0 stops at the NaN and 1.0 is inserted a second
  time, so the count grows from 2 to 3.
\<close>

theorem AddValue_nan_state_counterexample:
  "AddValues empty_order [d1, dnan] = Some \<lparr>vals = [dnan, d1]\<rparr> \<and>
   stored \<lparr>vals = [dnan, d1]\<rparr> d1 \<and>
   AddValue \<lparr>vals = [dnan, d1]\<rparr> d1 = Some \<lparr>vals = [d1, dnan, d1]\<rparr> \<and>
   (GetNumberOfFrames \<lparr>vals = [dnan, d1]\<rparr> :: 64 word) = 2 \<and>
   (GetNumberOfFrames \<lparr>vals = [d1, dnan, d1]\<rparr> :: 64 word) = 3"
  by (simp add: run_defs empty_order_def stored_def deq_def GetNumberOfFrames_def)


section \<open>Insertion followed by removal, and stability of frames\<close>

lemma count_less_append:
  "count_less (xs @ ys) v = count_less xs v + count_less ys v"
  by (simp add: count_less_def)

lemma count_less_take_drop:
  "count_less (take n xs) v + count_less (drop n xs) v = count_less xs v"
  using count_less_append [of "take n xs" "drop n xs" v] by simp

lemma count_less_inserted:
  "\<not> dless w v \<Longrightarrow> count_less (take n xs @ w # drop n xs) v = count_less xs v"
  using count_less_take_drop [of n xs v] by (simp add: count_less_append count_less_Cons)

lemma count_less_erased:
  assumes "n < length xs" "\<not> dless (xs ! n) v"
  shows "count_less (take n xs @ drop (Suc n) xs) v = count_less xs v"
proof -
  from assms(1) have "xs = take n xs @ xs ! n # drop (Suc n) xs" by (rule id_take_nth_drop)
  then have "count_less xs v = count_less (take n xs @ xs ! n # drop (Suc n) xs) v" by simp
  with assms(2) show ?thesis by (simp add: count_less_append count_less_Cons)
qed

lemma count_less_own_insert:
  assumes o: "ordered s"
  shows "count_less (take (count_less (vals s) v) (vals s) @ v # drop (count_less (vals s) v) (vals s)) v
         = count_less (vals s) v"
proof -
  have "\<not> dless v v" by (simp add: dless_def)
  then show ?thesis by (rule count_less_inserted)
qed

lemma lower_bound_own_insert:
  assumes o: "ordered s" and ns: "\<not> stored s v"
  shows "lower_bound (take (count_less (vals s) v) (vals s) @ v # drop (count_less (vals s) v) (vals s)) v
         = Some (count_less (vals s) v)"
proof (cases "isnan v")
  case True
  then have "count_less (vals s) v = 0" by (simp add: count_less_def dless_def)
  with True show ?thesis by (simp add: lower_bound_nan)
next
  case False
  let ?s' = "s\<lparr>vals := take (count_less (vals s) v) (vals s) @ v # drop (count_less (vals s) v) (vals s)\<rparr>"
  from ordered_inserted [OF o False ns] have "ordered ?s'" .
  from lower_bound_ordered [OF this, of v] show ?thesis
    by (simp add: count_less_own_insert [OF o])
qed

text \<open>
  In an ordered state, inserting a value that is not stored and then removing it gives
  back the state, hence the same \<^verbatim>\<open>GetNumberOfFrames\<close>; afterwards
  \<^verbatim>\<open>GetFrameForValue\<close> yields the sentinel if the value is greater than every
  stored value.
\<close>

lemma AddValue_then_RemoveValue:
  assumes "ordered s" and "\<not> stored s v"
  shows "\<exists>s' s''. AddValue s v = Some s' \<and> RemoveValue s' v = Some s'' \<and> s'' = s \<and>
     (GetNumberOfFrames s'' :: 'w::len word) = GetNumberOfFrames s \<and>
     ((\<forall>x\<in>set (vals s). dless x v) \<longrightarrow> GetFrameForValue s'' v = Some (- 1 :: 'w word))"
proof -
  let ?xs = "vals s" and ?c = "count_less (vals s) v"
  let ?ys = "take ?c ?xs @ v # drop ?c ?xs"
  have c: "?c \<le> length ?xs" by (rule count_less_le)
  from assms have add: "AddValue s v = Some (s\<lparr>vals := ?ys\<rparr>)" by (simp add: AddValue_ordered)
  from c have "take ?c ?ys @ drop (Suc ?c) ?ys = ?xs" by simp
  with c lower_bound_own_insert [OF assms]
  have "RemoveValue (s\<lparr>vals := ?ys\<rparr>) v = Some s"
    by (simp add: RemoveValue_def vec_erase_def)
  moreover have "(\<forall>x\<in>set ?xs. dless x v) \<longrightarrow> GetFrameForValue s v = Some (- 1 :: 'w word)"
    by (simp add: GetFrameForValue_def lower_bound_all_less)
  ultimately show ?thesis using add by simp
qed

lemma ordered_12: "ordered \<lparr>vals = [d1, d2]\<rparr>"
  by (simp add: ordered_def nan_free_def strictly_increasing_def)

text \<open>
  C6. After \<^verbatim>\<open>AddValue(v)\<close> and \<^verbatim>\<open>RemoveValue(v)\<close> for a value that was not stored,
  the count is to be as before and \<^verbatim>\<open>GetFrameForValue(v)\<close> is to be the sentinel. With
  only 3.0 stored, inserting and removing 1.0 gives back the state and its count of 1,
  but \<^verbatim>\<open>GetFrameForValue(1.0)\<close> is then 0, the frame of 3.0, not the sentinel.
\<close>

theorem AddValue_RemoveValue_frame_not_sentinel:
  "\<not> stored \<lparr>vals = [d3]\<rparr> d1 \<and>
   AddValue \<lparr>vals = [d3]\<rparr> d1 = Some \<lparr>vals = [d1, d3]\<rparr> \<and>
   RemoveValue \<lparr>vals = [d1, d3]\<rparr> d1 = Some \<lparr>vals = [d3]\<rparr> \<and>
   (GetNumberOfFrames \<lparr>vals = [d3]\<rparr> :: 64 word) = 1 \<and>
   GetFrameForValue \<lparr>vals = [d3]\<rparr> d1 = Some (0 :: 64 word) \<and>
   (0 :: 64 word) \<noteq> - 1"
  by (simp add: run_defs stored_def deq_def GetNumberOfFrames_def)

lemma stored_rank:
  "ordered s \<Longrightarrow> stored s v \<Longrightarrow>
   GetFrameForValue s v = Some (of_nat (count_less (vals s) v) :: 'w::len word)"
  using stored_iff_at_count [of s v] by (simp add: GetFrameForValue_ordered)

text \<open>
  C7 (as amended). In every state that is NaN-free and strictly increasing, for every
  stored value \<open>v\<close> and every \<open>w\<close> greater than \<open>v\<close>, \<^verbatim>\<open>AddValue(w)\<close> and
  \<^verbatim>\<open>RemoveValue(w)\<close> return and leave \<^verbatim>\<open>GetFrameForValue(v)\<close> unchanged.
\<close>

theorem rank_stable_above:
  assumes o: "ordered s" and st: "stored s v" and vw: "dless v w"
  shows "(\<exists>s'. AddValue s w = Some s' \<and>
            (GetFrameForValue s' v :: 'w::len word option) = GetFrameForValue s v) \<and>
         (\<exists>s'. RemoveValue s w = Some s' \<and>
            (GetFrameForValue s' v :: 'w word option) = GetFrameForValue s v)"
proof
  let ?xs = "vals s" and ?cw = "count_less (vals s) w" and ?cv = "count_less (vals s) v"
  from vw have wn: "\<not> isnan w" and nwv: "\<not> dless w v" by (auto simp: dless_def)
  note rank = stored_rank [OF o st, where 'w = 'w]
  show "\<exists>s'. AddValue s w = Some s' \<and>
      (GetFrameForValue s' v :: 'w word option) = GetFrameForValue s v"
  proof (cases "stored s w")
    case True
    with o show ?thesis by (simp add: AddValue_ordered)
  next
    case False
    let ?s' = "s\<lparr>vals := take ?cw ?xs @ w # drop ?cw ?xs\<rparr>"
    from o False have add: "AddValue s w = Some ?s'" by (simp add: AddValue_ordered)
    have o': "ordered ?s'" by (rule ordered_inserted [OF o wn False])
    have "set ?xs \<subseteq> set (vals ?s')"
      using set_append [of "take ?cw ?xs" "drop ?cw ?xs"] by auto
    with st have st': "stored ?s' v" by (auto simp: stored_def list_ex_iff)
    have "count_less (vals ?s') v = ?cv" using nwv by (simp add: count_less_inserted)
    with stored_rank [OF o' st', where 'w = 'w] rank add show ?thesis by simp
  qed
  show "\<exists>s'. RemoveValue s w = Some s' \<and>
      (GetFrameForValue s' v :: 'w word option) = GetFrameForValue s v"
  proof (cases "?cw < length ?xs")
    case False
    with o show ?thesis by (simp add: RemoveValue_ordered)
  next
    case True
    let ?s' = "s\<lparr>vals := take ?cw ?xs @ drop (Suc ?cw) ?xs\<rparr>"
    from o True have rem: "RemoveValue s w = Some ?s'" by (simp add: RemoveValue_ordered)
    have o': "ordered ?s'" by (rule ordered_erased [OF o])
    from o have si: "strictly_increasing ?xs" and nf: "nan_free ?xs" by (simp_all add: ordered_def)
    from st stored_iff_at_count [OF o, of v]
    have cv: "?cv < length ?xs" and e: "deq (?xs ! ?cv) v" by simp_all
    from e vw have "dless (?xs ! ?cv) w" by (simp add: deq_iff dless_iff)
    with sorted_index_less [OF si nf cv, of w] have lt: "?cv < ?cw" by simp
    then have "\<not> dless (?xs ! ?cw) v"
      using sorted_index_less [OF si nf True, of v] by simp
    then have cnt: "count_less (vals ?s') v = ?cv" using True by (simp add: count_less_erased)
    from lt True have "?xs ! ?cv \<in> set (take ?cw ?xs)"
      by (auto simp: in_set_conv_nth intro!: exI [of _ ?cv])
    with e have st': "stored ?s' v" by (auto simp: stored_def list_ex_iff)
    from stored_rank [OF o' st', where 'w = 'w] cnt rank rem show ?thesis by simp
  qed
qed

text \<open>The frame of 1.0 with 1.0 and 2.0 stored, before and after inserting or removing 3.0.\<close>

theorem rank_stable_above_witness:
  "ordered \<lparr>vals = [d1, d2]\<rparr> \<and> stored \<lparr>vals = [d1, d2]\<rparr> d1 \<and> dless d1 d3 \<and>
   (\<exists>s'. AddValue \<lparr>vals = [d1, d2]\<rparr> d3 = Some s' \<and>
      (GetFrameForValue s' d1 :: 64 word option) = GetFrameForValue \<lparr>vals = [d1, d2]\<rparr> d1) \<and>
   (\<exists>s'. RemoveValue \<lparr>vals = [d1, d2]\<rparr> d3 = Some s' \<and>
      (GetFrameForValue s' d1 :: 64 word option) = GetFrameForValue \<lparr>vals = [d1, d2]\<rparr> d1)"
proof -
  have st: "stored \<lparr>vals = [d1, d2]\<rparr> d1" by (simp add: stored_def deq_def)
  have lt: "dless d1 d3" by simp
  from rank_stable_above [OF ordered_12 st lt, where 'w = 64] ordered_12 st lt
  show ?thesis by simp
qed

text \<open>
  C7 as stated speaks of every stored value. In the state reached by inserting NaN, 1.0,
  NaN, NaN, 2.0 the stored 2.0 has frame 3; inserting the greater 3.0 changes the probes
  of the search and the frame of 2.0 becomes 0.
\<close>

theorem rank_stable_above_counterexample:
  "AddValues empty_order [dnan, d1, dnan, dnan, d2] = Some \<lparr>vals = [dnan, dnan, d1, d2, dnan]\<rparr> \<and>
   stored \<lparr>vals = [dnan, dnan, d1, d2, dnan]\<rparr> d2 \<and> dless d2 d3 \<and>
   GetFrameForValue \<lparr>vals = [dnan, dnan, d1, d2, dnan]\<rparr> d2 = Some (3 :: 64 word) \<and>
   AddValue \<lparr>vals = [dnan, dnan, d1, d2, dnan]\<rparr> d3 = Some \<lparr>vals = [dnan, dnan, d1, d2, d3, dnan]\<rparr> \<and>
   GetFrameForValue \<lparr>vals = [dnan, dnan, d1, d2, d3, dnan]\<rparr> d2 = Some (0 :: 64 word)"
  by (simp add: run_defs empty_order_def stored_def deq_def)

section \<open>The order of insertions\<close>

lemma deq_lits [simp]:
  "\<not> deq d1 d2" "\<not> deq d1 d3" "\<not> deq d2 d3" "\<not> deq d2 d1" "\<not> deq d3 d1" "\<not> deq d3 d2"
  "deq d1 d1" "deq d2 d2" "deq d3 d3" "deq dzero dnegzero" "deq dnegzero dzero"
  by (simp_all add: deq_def)

lemma keys_of_ordered:
  "ordered s \<Longrightarrow> sorted_wrt (<) (map dkey (vals s))"
  unfolding ordered_def strictly_increasing_def sorted_wrt_map
  by (erule conjE, rule sorted_wrt_mono_rel [of "vals s" dless]) (auto simp: dless_def)

lemma ordered_keys_unique:
  assumes t: "ordered t" and u: "ordered u"
    and k: "dkey ` set (vals t) = dkey ` set (vals u)"
  shows "map dkey (vals t) = map dkey (vals u)"
  using strict_sorted_equal [OF keys_of_ordered [OF u] keys_of_ordered [OF t]] k by simp

lemma ordered_same_values:
  assumes t: "ordered t" and u: "ordered u"
    and k: "dkey ` set (vals t) = dkey ` set (vals u)"
  shows "list_all2 deq (vals t) (vals u)"
proof -
  note m = ordered_keys_unique [OF t u k]
  then have len: "length (vals t) = length (vals u)" by (rule map_eq_imp_length_eq)
  have "deq (vals t ! i) (vals u ! i)" if i: "i < length (vals t)" for i
  proof -
    from m have "map dkey (vals t) ! i = map dkey (vals u) ! i" by simp
    with i len have "dkey (vals t ! i) = dkey (vals u ! i)" by simp
    moreover from t i have "\<not> isnan (vals t ! i)" by (simp add: ordered_def nan_free_nth)
    moreover from u i len have "\<not> isnan (vals u ! i)" by (simp add: ordered_def nan_free_nth)
    ultimately show ?thesis by (simp add: deq_iff)
  qed
  with len show ?thesis by (simp add: list_all2_conv_all_nth)
qed

lemma ordered_vals_unique:
  assumes t: "ordered t" and u: "ordered u" and e: "set (vals t) = set (vals u)"
  shows "vals t = vals u"
proof -
  from e have "dkey ` set (vals t) = dkey ` set (vals u)" by simp
  note m = ordered_keys_unique [OF t u this]
  from keys_of_ordered [OF t] have "distinct (map dkey (vals t))"
    by (simp add: strict_sorted_iff)
  then have "inj_on dkey (set (vals t))" by (simp add: distinct_map)
  with e have "inj_on dkey (set (vals t) \<union> set (vals u))" by simp
  from inj_on_map_eq_map [OF this] m show ?thesis by simp
qed

lemma set_inserted: "n \<le> length xs \<Longrightarrow> set (take n xs @ v # drop n xs) = insert v (set xs)"
  using set_append [of "take n xs" "drop n xs"] by auto

text \<open>The effect of one insertion into an ordered state.\<close>

lemma AddValue_effect:
  assumes o: "ordered s" and vn: "\<not> isnan v"
  shows "\<exists>s'. AddValue s v = Some s' \<and> ordered s' \<and>
           AnimationFrameOrder.more s' = AnimationFrameOrder.more s \<and>
           set (vals s') = (if stored s v then set (vals s) else insert v (set (vals s))) \<and>
           dkey ` set (vals s') = insert (dkey v) (dkey ` set (vals s))"
proof (cases "stored s v")
  case True
  then obtain x where "x \<in> set (vals s)" "deq x v" by (auto simp: stored_def list_ex_iff)
  then have "dkey v \<in> dkey ` set (vals s)" by (auto simp: deq_iff intro: rev_image_eqI)
  with True o show ?thesis by (auto simp: AddValue_ordered)
next
  case False
  let ?ys = "take (count_less (vals s) v) (vals s) @ v # drop (count_less (vals s) v) (vals s)"
  have e: "set ?ys = insert v (set (vals s))" by (rule set_inserted) (rule count_less_le)
  from o False have "AddValue s v = Some (s\<lparr>vals := ?ys\<rparr>)" by (simp add: AddValue_ordered)
  moreover have "ordered (s\<lparr>vals := ?ys\<rparr>)" by (rule ordered_inserted [OF o vn False])
  moreover from e have "set (vals (s\<lparr>vals := ?ys\<rparr>)) = insert v (set (vals s))" by simp
  moreover from e have "dkey ` set (vals (s\<lparr>vals := ?ys\<rparr>)) = insert (dkey v) (dkey ` set (vals s))"
    by (simp del: set_append)
  ultimately show ?thesis using False by (simp del: set_append)
qed

lemma deq_trans: "deq x a \<Longrightarrow> deq a b \<Longrightarrow> deq x b"
  by (simp add: deq_iff)

lemma stored_after_insert:
  assumes "set (vals s') = (if stored s a then set (vals s) else insert a (set (vals s)))"
  shows "stored s' b \<longleftrightarrow> stored s b \<or> deq a b"
  using assms by (auto simp: stored_def list_ex_iff dest: deq_trans split: if_splits)

lemma AddValue_pair:
  assumes o: "ordered s" and an: "\<not> isnan a" and bn: "\<not> isnan b"
  shows "\<exists>t u. (AddValue s a \<bind> (\<lambda>s'. AddValue s' b)) = Some t \<and>
               (AddValue s b \<bind> (\<lambda>s'. AddValue s' a)) = Some u \<and>
               list_all2 deq (vals t) (vals u) \<and> ((deq a b \<longrightarrow> a = b) \<longrightarrow> t = u)"
proof -
  from AddValue_effect [OF o an] obtain sa where sa: "AddValue s a = Some sa" "ordered sa"
    "AnimationFrameOrder.more sa = AnimationFrameOrder.more s"
    "set (vals sa) = (if stored s a then set (vals s) else insert a (set (vals s)))"
    "dkey ` set (vals sa) = insert (dkey a) (dkey ` set (vals s))" by blast
  from AddValue_effect [OF sa(2) bn] obtain t where t: "AddValue sa b = Some t" "ordered t"
    "AnimationFrameOrder.more t = AnimationFrameOrder.more sa"
    "set (vals t) = (if stored sa b then set (vals sa) else insert b (set (vals sa)))"
    "dkey ` set (vals t) = insert (dkey b) (dkey ` set (vals sa))" by blast
  from AddValue_effect [OF o bn] obtain sb where sb: "AddValue s b = Some sb" "ordered sb"
    "AnimationFrameOrder.more sb = AnimationFrameOrder.more s"
    "set (vals sb) = (if stored s b then set (vals s) else insert b (set (vals s)))"
    "dkey ` set (vals sb) = insert (dkey b) (dkey ` set (vals s))" by blast
  from AddValue_effect [OF sb(2) an] obtain u where u: "AddValue sb a = Some u" "ordered u"
    "AnimationFrameOrder.more u = AnimationFrameOrder.more sb"
    "set (vals u) = (if stored sb a then set (vals sb) else insert a (set (vals sb)))"
    "dkey ` set (vals u) = insert (dkey a) (dkey ` set (vals sb))" by blast
  from sa(5) t(5) sb(5) u(5) have "dkey ` set (vals t) = dkey ` set (vals u)" by auto
  then have same: "list_all2 deq (vals t) (vals u)" by (rule ordered_same_values [OF t(2) u(2)])
  have "t = u" if c: "deq a b \<longrightarrow> a = b"
  proof (cases "a = b")
    case True
    with sa(1) sb(1) t(1) u(1) show ?thesis by simp
  next
    case False
    with c have nab: "\<not> deq a b" by blast
    then have nba: "\<not> deq b a" by (auto simp: deq_iff)
    from nab stored_after_insert [OF sa(4), of b] have 1: "stored sa b \<longleftrightarrow> stored s b" by simp
    from nba stored_after_insert [OF sb(4), of a] have 2: "stored sb a \<longleftrightarrow> stored s a" by simp
    from sa(4) t(4) sb(4) u(4) 1 2 have "set (vals t) = set (vals u)" by auto
    then have "vals t = vals u" by (rule ordered_vals_unique [OF t(2) u(2)])
    with sa(3) t(3) sb(3) u(3) show ?thesis by simp
  qed
  with same sa(1) t(1) sb(1) u(1) show ?thesis by simp
qed

lemma AddValues_effect:
  "ordered s \<Longrightarrow> nan_free ws \<Longrightarrow>
   \<exists>t. AddValues s ws = Some t \<and> ordered t \<and>
     AnimationFrameOrder.more t = AnimationFrameOrder.more s \<and>
     dkey ` set (vals t) = dkey ` set (vals s) \<union> dkey ` set ws \<and>
     ((\<forall>x\<in>set (vals s) \<union> set ws. \<forall>y\<in>set (vals s) \<union> set ws. deq x y \<longrightarrow> x = y) \<longrightarrow>
        set (vals t) = set (vals s) \<union> set ws)"
proof (induction ws arbitrary: s)
  case Nil
  then show ?case by simp
next
  case (Cons w ws)
  from Cons.prems have wn: "\<not> isnan w" and nf: "nan_free ws" by (simp_all add: nan_free_def)
  from AddValue_effect [OF Cons.prems(1) wn] obtain s1 where s1: "AddValue s w = Some s1" "ordered s1"
    "AnimationFrameOrder.more s1 = AnimationFrameOrder.more s"
    "set (vals s1) = (if stored s w then set (vals s) else insert w (set (vals s)))"
    "dkey ` set (vals s1) = insert (dkey w) (dkey ` set (vals s))" by blast
  from Cons.IH [OF s1(2) nf] obtain t where t: "AddValues s1 ws = Some t" "ordered t"
    "AnimationFrameOrder.more t = AnimationFrameOrder.more s1"
    "dkey ` set (vals t) = dkey ` set (vals s1) \<union> dkey ` set ws"
    "(\<forall>x\<in>set (vals s1) \<union> set ws. \<forall>y\<in>set (vals s1) \<union> set ws. deq x y \<longrightarrow> x = y) \<longrightarrow>
        set (vals t) = set (vals s1) \<union> set ws" by blast
  have "set (vals t) = set (vals s) \<union> set (w # ws)"
    if c: "\<forall>x\<in>set (vals s) \<union> set (w # ws). \<forall>y\<in>set (vals s) \<union> set (w # ws). deq x y \<longrightarrow> x = y"
  proof -
    have "w \<in> set (vals s)" if "stored s w"
    proof -
      from that obtain x where x: "x \<in> set (vals s)" "deq x w" by (auto simp: stored_def list_ex_iff)
      with c have "x = w" by simp
      with x show ?thesis by simp
    qed
    with s1(4) have e: "set (vals s1) = insert w (set (vals s))" by auto
    with c have "\<forall>x\<in>set (vals s1) \<union> set ws. \<forall>y\<in>set (vals s1) \<union> set ws. deq x y \<longrightarrow> x = y"
      by simp
    with t(5) e show ?thesis by auto
  qed
  moreover from s1(5) t(4) have "dkey ` set (vals t) = dkey ` set (vals s) \<union> dkey ` set (w # ws)"
    by auto
  ultimately show ?case using s1(1,3) t(1,2,3) by simp
qed

lemma AddValues_any_order:
  assumes nf: "nan_free ws" and e: "set ws' = set ws"
  shows "\<exists>t u. AddValues empty_order ws = Some t \<and> AddValues empty_order ws' = Some u \<and>
     list_all2 deq (vals t) (vals u) \<and>
     ((\<forall>x\<in>set ws. \<forall>y\<in>set ws. deq x y \<longrightarrow> x = y) \<longrightarrow> t = u)"
proof -
  from nf e have nf': "nan_free ws'" by (simp add: nan_free_def list_all_iff)
  from AddValues_effect [OF ordered_empty nf] obtain t where t: "AddValues empty_order ws = Some t"
    "ordered t" "AnimationFrameOrder.more t = AnimationFrameOrder.more empty_order"
    "dkey ` set (vals t) = dkey ` set ws"
    "(\<forall>x\<in>set ws. \<forall>y\<in>set ws. deq x y \<longrightarrow> x = y) \<longrightarrow> set (vals t) = set ws"
    by (auto simp: empty_order_def)
  from AddValues_effect [OF ordered_empty nf'] e obtain u where u: "AddValues empty_order ws' = Some u"
    "ordered u" "AnimationFrameOrder.more u = AnimationFrameOrder.more empty_order"
    "dkey ` set (vals u) = dkey ` set ws"
    "(\<forall>x\<in>set ws. \<forall>y\<in>set ws. deq x y \<longrightarrow> x = y) \<longrightarrow> set (vals u) = set ws"
    by (auto simp: empty_order_def)
  from t(4) u(4) have "dkey ` set (vals t) = dkey ` set (vals u)" by simp
  then have same: "list_all2 deq (vals t) (vals u)" by (rule ordered_same_values [OF t(2) u(2)])
  have "t = u" if "\<forall>x\<in>set ws. \<forall>y\<in>set ws. deq x y \<longrightarrow> x = y"
  proof -
    from that t(5) u(5) have "set (vals t) = set (vals u)" by simp
    then have "vals t = vals u" by (rule ordered_vals_unique [OF t(2) u(2)])
    with t(3) u(3) show ?thesis by simp
  qed
  with same t(1) u(1) show ?thesis by simp
qed

lemma double_eqI:
  fixes a b :: double
  assumes "take_bit 63 a = take_bit 63 b" and "bit a 63 \<longleftrightarrow> bit b 63"
  shows "a = b"
proof (rule bit_eqI)
  fix n
  show "bit a n \<longleftrightarrow> bit b n"
  proof (cases "n < 63")
    case True
    from assms(1) have "bit (take_bit 63 a) n \<longleftrightarrow> bit (take_bit 63 b) n" by simp
    with True show ?thesis by (simp add: bit_take_bit_iff)
  next
    case False
    show ?thesis
    proof (cases "n = 63")
      case True
      with assms(2) show ?thesis by simp
    next
      case False
      with \<open>\<not> n < 63\<close> have "64 \<le> n" by simp
      then have "\<not> bit a n" "\<not> bit b n" by (auto dest: bit_imp_le_length)
      then show ?thesis by simp
    qed
  qed
qed

lemma dzero_bits: "take_bit 63 dzero = 0" "\<not> bit dzero 63"
  by (simp_all add: dzero_def)

lemma dnegzero_bits: "take_bit 63 dnegzero = 0" "bit dnegzero 63"
  by (simp_all add: dnegzero_def)

lemma key_same_sign:
  "bit a 63 = bit b 63 \<Longrightarrow> dkey a = dkey b \<Longrightarrow> uint (take_bit 63 a) = uint (take_bit 63 b)"
  unfolding dkey_def by (cases "bit b 63") simp_all

lemma uint_inject: "uint (x::64 word) = uint y \<Longrightarrow> x = y"
  by (simp only: word_uint_eq_iff)

lemma key_other_sign:
  "bit a 63 \<noteq> bit b 63 \<Longrightarrow> dkey a = dkey b \<Longrightarrow> uint (take_bit 63 a) = 0 \<and> uint (take_bit 63 b) = 0"
proof -
  assume s: "bit a 63 \<noteq> bit b 63" and k: "dkey a = dkey b"
  have p: "0 \<le> uint (take_bit 63 a)" "0 \<le> uint (take_bit 63 b)" by (rule uint_ge_0)+
  show ?thesis
  proof (cases "bit a 63")
    case True
    with s have "\<not> bit b 63" by simp
    with True k have "- uint (take_bit 63 a) = uint (take_bit 63 b)" by (simp only: dkey_def if_True if_False)
    with p show ?thesis by arith
  next
    case False
    with s have "bit b 63" by simp
    with False k have "uint (take_bit 63 a) = - uint (take_bit 63 b)" by (simp only: dkey_def if_True if_False)
    with p show ?thesis by arith
  qed
qed


text \<open>Two different data are equal under \<^verbatim>\<open>==\<close> only if they are the two zeros.\<close>

lemma deq_differ_zeros:
  assumes "deq a b" and "a \<noteq> b"
  shows "(a = dzero \<and> b = dnegzero) \<or> (a = dnegzero \<and> b = dzero)"
proof -
  from assms(1) have k: "dkey a = dkey b" by (simp add: deq_iff)
  have sign: "bit a 63 \<noteq> bit b 63"
  proof
    assume s: "bit a 63 = bit b 63"
    from key_same_sign [OF s k] have "take_bit 63 a = take_bit 63 b" by (rule uint_inject)
    from double_eqI [OF this] s have "a = b" by blast
    with assms(2) show False by blast
  qed
  from key_other_sign [OF sign k]
  have z: "take_bit 63 a = 0" "take_bit 63 b = 0" by (simp_all only: uint_0_iff)
  show ?thesis
  proof (cases "bit a 63")
    case True
    with sign have nb: "\<not> bit b 63" by blast
    have "a = dnegzero" by (rule double_eqI) (simp_all only: z dnegzero_bits True)
    moreover have "b = dzero" by (rule double_eqI) (simp_all only: z dzero_bits nb)
    ultimately show ?thesis by blast
  next
    case False
    with sign have nb: "bit b 63" by blast
    have "a = dzero" by (rule double_eqI) (simp_all only: z dzero_bits False)
    moreover have "b = dnegzero" by (rule double_eqI) (simp_all only: z dnegzero_bits nb)
    ultimately show ?thesis by blast
  qed
qed

text \<open>
  C10 (as amended). In every state that is NaN-free and strictly increasing and for all
  \<open>a\<close> and \<open>b\<close> that are not NaN, \<^verbatim>\<open>AddValue(a)\<close> then \<^verbatim>\<open>AddValue(b)\<close> and
  \<^verbatim>\<open>AddValue(b)\<close> then \<^verbatim>\<open>AddValue(a)\<close> both return, with sequences that are equal
  element by element under \<^verbatim>\<open>==\<close>; the two states are the same unless \<open>a\<close> and \<open>b\<close>
  are different data that are equal under \<^verbatim>\<open>==\<close> (by \<open>deq_differ_zeros\<close>: the two
  zeros). Likewise two runs of insertions into the empty index whose values are not NaN
  and form the same set end in sequences equal under \<^verbatim>\<open>==\<close>, and in the same state if
  the values do not include both zeros.
\<close>

theorem AddValue_commute:
  "(ordered s \<and> \<not> isnan a \<and> \<not> isnan b \<longrightarrow>
      (\<exists>t u. (AddValue s a \<bind> (\<lambda>s'. AddValue s' b)) = Some t \<and>
             (AddValue s b \<bind> (\<lambda>s'. AddValue s' a)) = Some u \<and>
             list_all2 deq (vals t) (vals u) \<and> ((deq a b \<longrightarrow> a = b) \<longrightarrow> t = u))) \<and>
   (nan_free ws \<and> set ws' = set ws \<longrightarrow>
      (\<exists>t u. AddValues empty_order ws = Some t \<and> AddValues empty_order ws' = Some u \<and>
             list_all2 deq (vals t) (vals u) \<and>
             ((\<forall>x\<in>set ws. \<forall>y\<in>set ws. deq x y \<longrightarrow> x = y) \<longrightarrow> t = u)))"
proof (intro conjI impI)
  assume "ordered s \<and> \<not> isnan a \<and> \<not> isnan b"
  then show "\<exists>t u. (AddValue s a \<bind> (\<lambda>s'. AddValue s' b)) = Some t \<and>
             (AddValue s b \<bind> (\<lambda>s'. AddValue s' a)) = Some u \<and>
             list_all2 deq (vals t) (vals u) \<and> ((deq a b \<longrightarrow> a = b) \<longrightarrow> t = u)"
    using AddValue_pair [of s a b] by simp
next
  assume "nan_free ws \<and> set ws' = set ws"
  then show "\<exists>t u. AddValues empty_order ws = Some t \<and> AddValues empty_order ws' = Some u \<and>
             list_all2 deq (vals t) (vals u) \<and>
             ((\<forall>x\<in>set ws. \<forall>y\<in>set ws. deq x y \<longrightarrow> x = y) \<longrightarrow> t = u)"
    using AddValues_any_order [of ws ws'] by simp
qed

lemma ordered_2: "ordered \<lparr>vals = [d2]\<rparr>"
  by (simp add: ordered_def nan_free_def strictly_increasing_def)

text \<open>
  Inserting 1.0 and 3.0 in either order with 2.0 stored; inserting 3.0, 1.0, 2.0 and
  2.0, 3.0, 1.0, 3.0 into the empty index.
\<close>

theorem AddValue_commute_witness:
  "ordered \<lparr>vals = [d2]\<rparr> \<and> \<not> isnan d1 \<and> \<not> isnan d3 \<and> \<not> deq d1 d3 \<and>
   (\<exists>t. (AddValue \<lparr>vals = [d2]\<rparr> d1 \<bind> (\<lambda>s'. AddValue s' d3)) = Some t \<and>
        (AddValue \<lparr>vals = [d2]\<rparr> d3 \<bind> (\<lambda>s'. AddValue s' d1)) = Some t) \<and>
   nan_free [d3, d1, d2] \<and> set [d2, d3, d1, d3] = set [d3, d1, d2] \<and>
   (\<exists>t. AddValues empty_order [d3, d1, d2] = Some t \<and>
        AddValues empty_order [d2, d3, d1, d3] = Some t)"
  using AddValue_commute [of "\<lparr>vals = [d2]\<rparr>" d1 d3 "[d3, d1, d2]" "[d2, d3, d1, d3]"] ordered_2
  by (auto simp: nan_free_def)

lemma zero_lits [simp]:
  "\<not> dless dzero dnegzero" "\<not> dless dnegzero dzero" "d1 \<noteq> dnan" "dnan \<noteq> d1"
  by (simp_all add: dless_def) (simp_all add: d1_def dnan_def)

text \<open>
  C10 as stated allows all values. From the empty index, NaN then 1.0 gives 1.0, NaN,
  while 1.0 then NaN gives NaN, 1.0. And +0.0 then -0.0 stores +0.0, while -0.0 then
  +0.0 stores -0.0: the second call finds an equal element and does nothing.
\<close>

theorem AddValue_commute_counterexample:
  "(AddValue empty_order dnan \<bind> (\<lambda>s'. AddValue s' d1)) = Some \<lparr>vals = [d1, dnan]\<rparr> \<and>
   (AddValue empty_order d1 \<bind> (\<lambda>s'. AddValue s' dnan)) = Some \<lparr>vals = [dnan, d1]\<rparr> \<and>
   [d1, dnan] \<noteq> [dnan, d1] \<and>
   (AddValue empty_order dzero \<bind> (\<lambda>s'. AddValue s' dnegzero)) = Some \<lparr>vals = [dzero]\<rparr> \<and>
   (AddValue empty_order dnegzero \<bind> (\<lambda>s'. AddValue s' dzero)) = Some \<lparr>vals = [dnegzero]\<rparr> \<and>
   [dzero] \<noteq> [dnegzero]"
  by (simp add: run_defs empty_order_def)

end
